theory Spec2Isabelle
  imports Complex_Main
begin

section \<open>Errors\<close>

text \<open>The Python exceptions that the modelled code can raise. Every raise of the
  source is a value of this type in the model.\<close>

datatype error =
    ValueError
  | TypeError
  | KeyError
  | AttributeError
  | JSONDecodeError
  | ClientError

section \<open>utils.py: RateLimiter\<close>

text \<open>A limits dictionary \<^verbatim>\<open>{'requests': n, 'window': w}\<close>. Only these two keys are ever
  read, each through \<^verbatim>\<open>.get(key, 5)\<close>, so a missing key is \<open>None\<close>. Time stamps and
  durations (Python floats, in seconds) are reals.\<close>

record limits =
  lim_requests :: "int option"
  lim_window :: "real option"

text \<open>The configuration dictionary, as far as the limiter reads it: the optional key
  \<^verbatim>\<open>'rate_limits'\<close>, a dictionary from bucket names to limits.\<close>

record config_dict =
  rate_limits :: "(string \<rightharpoonup> limits) option"

text \<open>\<^verbatim>\<open>self.buckets[name]['requests']\<close> is the list of admission time stamps of the
  bucket, oldest first.\<close>

record RateLimiter =
  buckets :: "string \<rightharpoonup> real list"
  config :: config_dict

definition empty_config :: config_dict where
  "empty_config = \<lparr>rate_limits = None\<rparr>"

text \<open>\<^verbatim>\<open>RateLimiter.__init__(config=None)\<close>: \<^verbatim>\<open>self.config = config or {}\<close>.\<close>

definition RateLimiter_init :: "config_dict option \<Rightarrow> RateLimiter" where
  "RateLimiter_init c =
     \<lparr>buckets = Map.empty,
      config = (case c of None \<Rightarrow> empty_config | Some d \<Rightarrow> d)\<rparr>"

definition default_limits :: limits where
  "default_limits = \<lparr>lim_requests = Some 5, lim_window = Some 5\<rparr>"

text \<open>The first three lines of \<^verbatim>\<open>wait_if_needed\<close>: the pair
  \<open>(max_requests, window)\<close> for a bucket name.\<close>

definition resolve_limits :: "RateLimiter \<Rightarrow> string \<Rightarrow> int \<times> real" where
  "resolve_limits rl bucket_name =
     (let table = (case rate_limits (config rl) of None \<Rightarrow> Map.empty | Some m \<Rightarrow> m);
          lim = (case table bucket_name of None \<Rightarrow> default_limits | Some l \<Rightarrow> l)
      in (case lim_requests lim of None \<Rightarrow> 5 | Some n \<Rightarrow> n,
          case lim_window lim of None \<Rightarrow> 5 | Some w \<Rightarrow> w))"

definition requests_of :: "string \<Rightarrow> RateLimiter \<Rightarrow> real list" where
  "requests_of bucket_name rl =
     (case buckets rl bucket_name of None \<Rightarrow> [] | Some r \<Rightarrow> r)"

text \<open>\<^verbatim>\<open>wait_if_needed(bucket_name)\<close>. The two readings of \<^verbatim>\<open>time.time()\<close> are inputs:
  \<open>now\<close> is the reading on entry; the reading that is appended is taken \<open>lag\<close>
  seconds after the sleep (if any) has ended, where \<^verbatim>\<open>asyncio.sleep(d)\<close> lasts
  \<open>max 0 d\<close>. \<^verbatim>\<open>min\<close> of an empty list raises \<open>ValueError\<close>, after the bucket has
  been created and pruned. The result is the appended time stamp, or the error, and
  the limiter as the call leaves it.\<close>

definition wait_if_needed ::
  "string \<Rightarrow> real \<Rightarrow> real \<Rightarrow> RateLimiter \<Rightarrow> (error + real) \<times> RateLimiter" where
  "wait_if_needed bucket_name now lag rl =
     (let max_requests = fst (resolve_limits rl bucket_name);
          window = snd (resolve_limits rl bucket_name);
          pruned = filter (\<lambda>t. now - t < window) (requests_of bucket_name rl)
      in if max_requests \<le> int (length pruned) then
           (if pruned = [] then
              (Inl ValueError, rl\<lparr>buckets := (buckets rl)(bucket_name \<mapsto> pruned)\<rparr>)
            else
              (let wait_time = window - (now - Min (set pruned));
                   stamp = now + max 0 wait_time + lag
               in (Inr stamp, rl\<lparr>buckets := (buckets rl)(bucket_name \<mapsto> pruned @ [stamp])\<rparr>)))
         else
           (let stamp = now + lag
            in (Inr stamp, rl\<lparr>buckets := (buckets rl)(bucket_name \<mapsto> pruned @ [stamp])\<rparr>)))"

subsection \<open>Sequences of calls\<close>

text \<open>A call names its bucket, starts \<open>c_idle\<close> seconds after the previous call has
  returned, and reads the clock for the appended time stamp \<open>c_lag\<close> seconds after
  its sleep. The world keeps the clock, the limiter and the log of admissions (bucket
  name and appended time stamp), oldest first.\<close>

record call =
  c_bucket :: string
  c_idle :: real
  c_lag :: real

record world =
  clock :: real
  limiter :: RateLimiter
  admitted :: "(string \<times> real) list"

definition step :: "world \<Rightarrow> call \<Rightarrow> world" where
  "step w c =
     (let now = clock w + c_idle c;
          r = wait_if_needed (c_bucket c) now (c_lag c) (limiter w)
      in case fst r of
           Inl e \<Rightarrow> \<lparr>clock = now, limiter = snd r, admitted = admitted w\<rparr>
         | Inr stamp \<Rightarrow>
             \<lparr>clock = stamp, limiter = snd r, admitted = admitted w @ [(c_bucket c, stamp)]\<rparr>)"

definition run :: "call list \<Rightarrow> world \<Rightarrow> world" where
  "run cs w = foldl step w cs"

definition start :: "real \<Rightarrow> config_dict option \<Rightarrow> world" where
  "start t0 c = \<lparr>clock = t0, limiter = RateLimiter_init c, admitted = []\<rparr>"

definition admissions :: "string \<Rightarrow> world \<Rightarrow> real list" where
  "admissions b w = map snd (filter (\<lambda>p. fst p = b) (admitted w))"

text \<open>A time stamp \<open>t\<close> is younger than the window \<open>W\<close> at time \<open>T\<close>: the test of the
  pruning comprehension.\<close>

definition young :: "real \<Rightarrow> real \<Rightarrow> real \<Rightarrow> bool" where
  "young W T t \<longleftrightarrow> T - t < W"

text \<open>The invariant behind the sliding window, for the clock \<open>c\<close>, the log \<open>L\<close> of
  admissions of a bucket and its stored list \<open>B\<close>: at every time from \<open>c\<close> on, the
  young entries of the log are exactly the young entries of the stored list, there are
  at most \<open>N\<close> of them, and no half-open window of length \<open>W\<close> (closed on either
  side) holds more than \<open>N\<close> entries of the log.\<close>

definition window_inv :: "int \<Rightarrow> real \<Rightarrow> real \<Rightarrow> real list \<Rightarrow> real list \<Rightarrow> bool" where
  "window_inv N W c L B \<longleftrightarrow>
     (\<forall>T\<ge>c. filter (young W T) L = filter (young W T) B) \<and>
     (\<forall>T\<ge>c. int (length (filter (young W T) B)) \<le> N) \<and>
     (\<forall>a. int (length (filter (\<lambda>t. a \<le> t \<and> t < a + W) L)) \<le> N) \<and>
     (\<forall>a. int (length (filter (\<lambda>t. a < t \<and> t \<le> a + W) L)) \<le> N)"

text \<open>The scenario of the specification: the bucket \<^verbatim>\<open>message\<close> configured with
  \<^verbatim>\<open>{requests: 2, window: 5}\<close>, and a call issued as soon as the previous one has
  returned, with no latency.\<close>

definition scenario_config :: config_dict where
  "scenario_config =
     \<lparr>rate_limits = Some [''message'' \<mapsto> \<lparr>lim_requests = Some 2, lim_window = Some 5\<rparr>]\<rparr>"

definition at_once :: call where
  "at_once = \<lparr>c_bucket = ''message'', c_idle = 0, c_lag = 0\<rparr>"

subsection \<open>Calls that overlap\<close>

text \<open>\<^verbatim>\<open>wait_if_needed\<close> has one suspension point, the \<^verbatim>\<open>await asyncio.sleep\<close> between
  its test and its append, and takes no lock. \<open>wait_check\<close> is the part before it:
  it stores the pruned list and tells whether the caller raises, goes on at once
  (\<open>None\<close>) or sleeps (\<open>Some wait_time\<close>). \<open>wait_append\<close> is the part after it:
  \<^verbatim>\<open>bucket['requests'].append(...)\<close> on the list the bucket holds by then.\<close>

definition wait_check ::
  "string \<Rightarrow> real \<Rightarrow> RateLimiter \<Rightarrow> (error + real option) \<times> RateLimiter" where
  "wait_check bucket_name now rl =
     (let max_requests = fst (resolve_limits rl bucket_name);
          window = snd (resolve_limits rl bucket_name);
          pruned = filter (\<lambda>t. now - t < window) (requests_of bucket_name rl);
          rl' = rl\<lparr>buckets := (buckets rl)(bucket_name \<mapsto> pruned)\<rparr>
      in if max_requests \<le> int (length pruned) then
           (if pruned = [] then (Inl ValueError, rl')
            else (Inr (Some (window - (now - Min (set pruned)))), rl'))
         else (Inr None, rl'))"

definition wait_append :: "string \<Rightarrow> real \<Rightarrow> RateLimiter \<Rightarrow> RateLimiter" where
  "wait_append bucket_name stamp rl =
     rl\<lparr>buckets := (buckets rl)(bucket_name \<mapsto> requests_of bucket_name rl @ [stamp])\<rparr>"

text \<open>Callers as tasks of one event loop: the world, and the callers suspended in their
  sleep, each with its bucket and the clock reading it will append, in the order in
  which they wake. A caller that enters runs up to its sleep, or to its end when it
  does not sleep; a wake lets the first sleeper append.\<close>

record tasks =
  base :: world
  sleeping :: "(string \<times> real) list"

datatype event = Enter call | Wake

definition enter :: "call \<Rightarrow> tasks \<Rightarrow> tasks" where
  "enter c t =
     (let now = clock (base t) + c_idle c;
          r = wait_check (c_bucket c) now (limiter (base t))
      in case fst r of
           Inl e \<Rightarrow>
             t\<lparr>base := \<lparr>clock = now, limiter = snd r, admitted = admitted (base t)\<rparr>\<rparr>
         | Inr None \<Rightarrow>
             t\<lparr>base := \<lparr>clock = now + c_lag c,
                        limiter = wait_append (c_bucket c) (now + c_lag c) (snd r),
                        admitted = admitted (base t) @ [(c_bucket c, now + c_lag c)]\<rparr>\<rparr>
         | Inr (Some d) \<Rightarrow>
             t\<lparr>base := \<lparr>clock = now, limiter = snd r, admitted = admitted (base t)\<rparr>,
               sleeping := sleeping t @ [(c_bucket c, now + max 0 d + c_lag c)]\<rparr>)"

definition wake :: "tasks \<Rightarrow> tasks" where
  "wake t =
     (case sleeping t of
        [] \<Rightarrow> t
      | p # rest \<Rightarrow>
          \<lparr>base = \<lparr>clock = snd p,
                    limiter = wait_append (fst p) (snd p) (limiter (base t)),
                    admitted = admitted (base t) @ [p]\<rparr>,
           sleeping = rest\<rparr>)"

fun occur :: "tasks \<Rightarrow> event \<Rightarrow> tasks" where
  "occur t (Enter c) = enter c t"
| "occur t Wake = wake t"

definition interleave :: "event list \<Rightarrow> tasks \<Rightarrow> tasks" where
  "interleave es t = foldl occur t es"

definition idle_tasks :: "world \<Rightarrow> tasks" where
  "idle_tasks w = \<lparr>base = w, sleeping = []\<rparr>"

text \<open>The number of time stamps in the interval from \<open>a\<close> to \<open>b\<close>, without and with its
  end.\<close>

definition count_in :: "real \<Rightarrow> real \<Rightarrow> real list \<Rightarrow> nat" where
  "count_in a b ts = length (filter (\<lambda>t. a \<le> t \<and> t < b) ts)"

definition count_within :: "real \<Rightarrow> real \<Rightarrow> real list \<Rightarrow> nat" where
  "count_within a b ts = length (filter (\<lambda>t. a \<le> t \<and> t \<le> b) ts)"

text \<open>Further calls on the scenario's bucket: one that starts a second after the
  previous event, and one whose clock reading for the time stamp falls a millisecond
  short of the end of its sleep.\<close>

definition a_second_later :: call where
  "a_second_later = \<lparr>c_bucket = ''message'', c_idle = 1, c_lag = 0\<rparr>"

definition read_early :: call where
  "read_early = \<lparr>c_bucket = ''message'', c_idle = 0, c_lag = - (1 / 1000)\<rparr>"

section \<open>bot.py: DiscordUser and the limiter\<close>

text \<open>Of \<^verbatim>\<open>DiscordUser\<close>, the configuration it is given and the limiter it builds.
  \<^verbatim>\<open>__init__\<close> stores the configuration and calls \<^verbatim>\<open>RateLimiter()\<close> with no
  argument.\<close>

record DiscordUser =
  bot_config :: config_dict
  rate_limiter :: RateLimiter

definition DiscordUser_init :: "config_dict \<Rightarrow> DiscordUser" where
  "DiscordUser_init cfg = \<lparr>bot_config = cfg, rate_limiter = RateLimiter_init None\<rparr>"

text \<open>\<^verbatim>\<open>send_message\<close> first awaits \<^verbatim>\<open>self.rate_limiter.wait_if_needed('message')\<close>,
  outside its \<^verbatim>\<open>try\<close>; the HTTP request that follows does not touch the limiter and
  is left out. The clock readings are those of \<open>wait_if_needed\<close>.\<close>

definition send_message :: "real \<Rightarrow> real \<Rightarrow> DiscordUser \<Rightarrow> (error + real) \<times> DiscordUser" where
  "send_message now lag usr =
     (let r = wait_if_needed ''message'' now lag (rate_limiter usr)
      in (fst r, usr\<lparr>rate_limiter := snd r\<rparr>))"

fun send_messages :: "(real \<times> real) list \<Rightarrow> DiscordUser \<Rightarrow> DiscordUser" where
  "send_messages [] usr = usr"
| "send_messages (c # cs) usr = send_messages cs (snd (send_message (fst c) (snd c) usr))"

section \<open>gateway.py: GatewayHandler\<close>

subsection \<open>Decoded frames\<close>

text \<open>What \<^verbatim>\<open>json.loads\<close> returns. \<open>JNull\<close> is Python's \<^verbatim>\<open>None\<close>; \<open>JObj\<close> carries the
  items of the dictionary. Python floats are reals.\<close>

datatype json =
    JNull
  | JBool bool
  | JInt int
  | JFloat real
  | JStr string
  | JArr "json list"
  | JObj "(string \<times> json) list"

text \<open>\<^verbatim>\<open>data.get(k)\<close> on a dictionary: \<^verbatim>\<open>None\<close> when the key is absent.\<close>

definition dict_get :: "(string \<times> json) list \<Rightarrow> string \<Rightarrow> json" where
  "dict_get kvs k = (case map_of kvs k of None \<Rightarrow> JNull | Some v \<Rightarrow> v)"

text \<open>\<^verbatim>\<open>v == n\<close> for an integer literal \<open>n\<close>: Python compares numbers by value, and
  \<^verbatim>\<open>True == 1\<close>, \<^verbatim>\<open>False == 0\<close>.\<close>

fun py_eq :: "json \<Rightarrow> int \<Rightarrow> bool" where
  "py_eq (JInt i) n = (i = n)"
| "py_eq (JBool b) n = ((if b then 1 else 0) = n)"
| "py_eq (JFloat r) n = (r = of_int n)"
| "py_eq _ n = False"

text \<open>\<^verbatim>\<open>d[k]\<close> for a string key: \<open>KeyError\<close> on a dictionary without the key,
  \<open>TypeError\<close> on anything that is not a dictionary.\<close>

fun subscript :: "json \<Rightarrow> string \<Rightarrow> error + json" where
  "subscript (JObj kvs) k = (case map_of kvs k of None \<Rightarrow> Inl KeyError | Some v \<Rightarrow> Inr v)"
| "subscript _ k = Inl TypeError"

text \<open>\<^verbatim>\<open>v / c\<close> for a float constant \<open>c\<close>.\<close>

fun true_div :: "json \<Rightarrow> real \<Rightarrow> error + real" where
  "true_div (JInt i) c = Inr (of_int i / c)"
| "true_div (JFloat r) c = Inr (r / c)"
| "true_div (JBool b) c = Inr ((if b then 1 else 0) / c)"
| "true_div _ c = Inl TypeError"

text \<open>\<^verbatim>\<open>d['heartbeat_interval'] / 1000.0\<close>.\<close>

definition hello_interval :: "json \<Rightarrow> error + real" where
  "hello_interval d =
     (case subscript d ''heartbeat_interval'' of
        Inl e \<Rightarrow> Inl e
      | Inr v \<Rightarrow> true_div v 1000)"

subsection \<open>State and effects\<close>

datatype level = DEBUG | INFO | WARNING | ERROR

text \<open>What the handler does to the outside, in the order in which it happens: a log
  record (level and the constant part of the message), the start of an
  \<^verbatim>\<open>asyncio.sleep\<close> of the task that issues it, a payload written to the socket, an
  event handed to \<^verbatim>\<open>bot.handle_event\<close>, the creation of a heartbeat task, and the
  closing of the socket.\<close>

datatype effect =
    Log level string
  | Sleep real
  | Sent json
  | Dispatched json json
  | Task_created
  | Socket_closed

record websocket =
  ws_closed :: bool

text \<open>The fields of \<^verbatim>\<open>GatewayHandler\<close>, and the effects so far. \<open>sequence\<close> holds
  whatever value a frame carried under \<^verbatim>\<open>'s'\<close>.\<close>

record GatewayHandler =
  token :: string
  ws :: "websocket option"
  session_id :: "string option"
  sequence :: json
  heartbeat_interval :: "real option"
  last_heartbeat_ack :: bool
  gateway_url :: string
  reconnect_attempts :: nat
  max_reconnect_attempts :: nat
  effects :: "effect list"

definition GatewayHandler_init :: "string \<Rightarrow> GatewayHandler" where
  "GatewayHandler_init tok =
     \<lparr>token = tok, ws = None, session_id = None, sequence = JNull,
      heartbeat_interval = None, last_heartbeat_ack = True,
      gateway_url = ''wss://gateway.discord.gg/?v=10&encoding=json'',
      reconnect_attempts = 0, max_reconnect_attempts = 5, effects = []\<rparr>"

definition emit :: "effect \<Rightarrow> GatewayHandler \<Rightarrow> GatewayHandler" where
  "emit e s = s\<lparr>effects := effects s @ [e]\<rparr>"

definition logger :: "level \<Rightarrow> string \<Rightarrow> GatewayHandler \<Rightarrow> GatewayHandler" where
  "logger lv msg s = emit (Log lv msg) s"

text \<open>\<^verbatim>\<open>self.ws and not self.ws.closed\<close>.\<close>

definition ws_open :: "GatewayHandler \<Rightarrow> bool" where
  "ws_open s = (case ws s of None \<Rightarrow> False | Some w \<Rightarrow> \<not> ws_closed w)"

subsection \<open>Outbound payloads\<close>

definition send_payload :: "json \<Rightarrow> GatewayHandler \<Rightarrow> GatewayHandler" where
  "send_payload payload s = (if ws_open s then emit (Sent payload) s else s)"

definition heartbeat_payload :: "json \<Rightarrow> json" where
  "heartbeat_payload sq = JObj [(''op'', JInt 1), (''d'', sq)]"

definition send_heartbeat :: "GatewayHandler \<Rightarrow> GatewayHandler" where
  "send_heartbeat s =
     logger DEBUG ''Heartbeat sent''
       (send_payload (heartbeat_payload (sequence s)) (s\<lparr>last_heartbeat_ack := False\<rparr>))"

definition identify_payload :: "string \<Rightarrow> json" where
  "identify_payload tok =
     JObj [(''op'', JInt 2),
           (''d'', JObj [(''token'', JStr tok),
                         (''properties'',
                            JObj [(''os'', JStr ''windows''),
                                  (''browser'', JStr ''Chrome''),
                                  (''device'', JStr ''''),
                                  (''system_locale'', JStr ''en-US''),
                                  (''browser_user_agent'', JStr ''Mozilla/5.0''),
                                  (''browser_version'', JStr ''112.0'')])])]"

definition identify :: "GatewayHandler \<Rightarrow> GatewayHandler" where
  "identify s =
     logger INFO ''Identification sent to gateway (user token)''
       (send_payload (identify_payload (token s)) s)"

definition resume_payload :: "string \<Rightarrow> string option \<Rightarrow> json \<Rightarrow> json" where
  "resume_payload tok sid sq =
     JObj [(''op'', JInt 6),
           (''d'', JObj [(''token'', JStr tok),
                         (''session_id'', (case sid of None \<Rightarrow> JNull | Some x \<Rightarrow> JStr x)),
                         (''seq'', sq)])]"

definition resume :: "GatewayHandler \<Rightarrow> GatewayHandler" where
  "resume s =
     logger INFO ''Session resume sent to gateway''
       (send_payload (resume_payload (token s) (session_id s) (sequence s)) s)"

text \<open>\<^verbatim>\<open>close\<close>: closes the socket if it is open, then logs.\<close>

definition close_ws :: "GatewayHandler \<Rightarrow> GatewayHandler" where
  "close_ws s =
     (if ws_open s then emit Socket_closed (s\<lparr>ws := Some \<lparr>ws_closed = True\<rparr>\<rparr>) else s)"

definition close :: "GatewayHandler \<Rightarrow> GatewayHandler" where
  "close s = logger INFO ''Gateway connection closed'' (close_ws s)"

subsection \<open>Inbound frames\<close>

text \<open>\<^verbatim>\<open>if s is not None: self.sequence = s\<close>.\<close>

definition store_sequence :: "json \<Rightarrow> GatewayHandler \<Rightarrow> GatewayHandler" where
  "store_sequence sq s = (if sq \<noteq> JNull then s\<lparr>sequence := sq\<rparr> else s)"

text \<open>\<^verbatim>\<open>_handle_message(data)\<close>. \<^verbatim>\<open>data.get\<close> raises \<open>AttributeError\<close> when the decoded
  frame is not a dictionary. A raise returns the error with the state as it was left.
  \<^verbatim>\<open>if self.session_id\<close> is Python truth: neither \<^verbatim>\<open>None\<close> nor the empty string.\<close>

definition handle_message ::
  "json \<Rightarrow> GatewayHandler \<Rightarrow> (error \<times> GatewayHandler) + GatewayHandler" where
  "handle_message data s =
     (case data of
        JObj kvs \<Rightarrow>
          (let op = dict_get kvs ''op'';
               d = dict_get kvs ''d'';
               sq = dict_get kvs ''s'';
               t = dict_get kvs ''t'';
               s1 = store_sequence sq s
           in if py_eq op 0 then
                Inr (emit (Dispatched t d) (logger DEBUG ''Received event'' s1))
              else if py_eq op 1 then
                Inr (send_heartbeat s1)
              else if py_eq op 7 then
                Inr (close (logger WARNING ''Gateway requested reconnect'' s1))
              else if py_eq op 9 then
                Inr (identify (emit (Sleep 5)
                  ((logger WARNING ''Invalid session, re-identifying...'' s1)
                     \<lparr>session_id := None, sequence := JNull\<rparr>)))
              else if py_eq op 10 then
                (case hello_interval d of
                   Inl e \<Rightarrow> Inl (e, s1)
                 | Inr hi \<Rightarrow>
                     (let s2 = emit Task_created
                            (logger INFO ''Gateway hello received''
                               (s1\<lparr>heartbeat_interval := Some hi\<rparr>))
                      in if session_id s2 \<noteq> None \<and> session_id s2 \<noteq> Some []
                         then Inr (resume s2) else Inr (identify s2)))
              else if py_eq op 11 then
                Inr (logger DEBUG ''Heartbeat acknowledged'' (s1\<lparr>last_heartbeat_ack := True\<rparr>))
              else Inr s1)
      | _ \<Rightarrow> Inl (AttributeError, s))"

text \<open>Frames handled one after the other, as the read loop does; the first raise ends
  the handling.\<close>

fun handle_messages ::
  "json list \<Rightarrow> GatewayHandler \<Rightarrow> (error \<times> GatewayHandler) + GatewayHandler" where
  "handle_messages [] s = Inr s"
| "handle_messages (f # fs) s =
     (case handle_message f s of
        Inl r \<Rightarrow> Inl r
      | Inr s' \<Rightarrow> handle_messages fs s')"

subsection \<open>The heartbeat loop\<close>

datatype loop_status = Running | Exited | Raised error

text \<open>One pass of \<^verbatim>\<open>_heartbeat_loop\<close>, from the test of the \<^verbatim>\<open>while\<close> to the start of
  the sleep. \<^verbatim>\<open>asyncio.sleep(None)\<close> raises \<open>TypeError\<close>.\<close>

definition heartbeat_iter :: "GatewayHandler \<Rightarrow> loop_status \<times> GatewayHandler" where
  "heartbeat_iter s =
     (if \<not> ws_open s then (Exited, s)
      else if \<not> last_heartbeat_ack s then
        (Exited, logger WARNING ''Heartbeat not acknowledged, connection may be dead'' s)
      else
        (let s1 = send_heartbeat s
         in case heartbeat_interval s1 of
              None \<Rightarrow> (Raised TypeError, s1)
            | Some i \<Rightarrow> (Running, emit (Sleep i) s1)))"

text \<open>The loop, beside the reader: the argument lists, for each sleep of the loop, the
  frames that the reader handles while the loop sleeps. The observation ends, with
  the loop still \<open>Running\<close>, when the list is used up or the reader raises.\<close>

fun heartbeat_loop :: "json list list \<Rightarrow> GatewayHandler \<Rightarrow> loop_status \<times> GatewayHandler" where
  "heartbeat_loop [] s = (Running, s)"
| "heartbeat_loop (frames # env) s =
     (case heartbeat_iter s of
        (Running, s1) \<Rightarrow>
          (case handle_messages frames s1 of
             Inl r \<Rightarrow> (Running, snd r)
           | Inr s2 \<Rightarrow> heartbeat_loop env s2)
      | r \<Rightarrow> r)"

subsection \<open>connect\<close>

text \<open>The outcomes of the HTTP exchange of \<^verbatim>\<open>_get_gateway_url\<close>, as the code tells
  them apart: status 200 with a body whose \<^verbatim>\<open>'url'\<close> formats to the given string, a
  status other than 200, or an exception anywhere in the block.\<close>

datatype gateway_reply = Url_ok string | Url_refused | Url_raised

definition get_gateway_url :: "gateway_reply \<Rightarrow> GatewayHandler \<Rightarrow> GatewayHandler" where
  "get_gateway_url r s =
     (case r of
        Url_ok u \<Rightarrow>
          logger DEBUG ''Gateway URL updated'' (s\<lparr>gateway_url := u @ ''/?v=10&encoding=json''\<rparr>)
      | Url_refused \<Rightarrow> logger WARNING ''Failed to get gateway URL'' s
      | Url_raised \<Rightarrow> logger ERROR ''Error getting gateway URL'' s)"

text \<open>A message of the socket: a text frame with what \<^verbatim>\<open>json.loads\<close> makes of its data
  (\<open>None\<close> when it raises \<open>JSONDecodeError\<close>), an error, a close, or a message of
  another type, which the loop ignores.\<close>

datatype ws_message = Text "json option" | Error_msg | Close_msg | Other_msg

text \<open>The body of \<^verbatim>\<open>async for msg in ws\<close>. The iteration ends when the messages do, and
  once the socket has been closed.\<close>

fun read_loop ::
  "ws_message list \<Rightarrow> GatewayHandler \<Rightarrow> (error \<times> GatewayHandler) + GatewayHandler" where
  "read_loop [] s = Inr s"
| "read_loop (m # ms) s =
     (if \<not> ws_open s then Inr s
      else case m of
             Text None \<Rightarrow> Inl (JSONDecodeError, s)
           | Text (Some data) \<Rightarrow>
               (case handle_message data s of
                  Inl r \<Rightarrow> Inl r
                | Inr s' \<Rightarrow> read_loop ms s')
           | Error_msg \<Rightarrow> Inr (logger ERROR ''Gateway error'' s)
           | Close_msg \<Rightarrow> Inr (logger WARNING ''Gateway connection closed'' s)
           | Other_msg \<Rightarrow> read_loop ms s)"

text \<open>\<^verbatim>\<open>min(300, (2 ** attempts) + (time.time() % 1))\<close>, for a reading \<open>now\<close> of the
  clock.\<close>

definition backoff_delay :: "nat \<Rightarrow> real \<Rightarrow> real" where
  "backoff_delay attempts now = min 300 (2 ^ attempts + frac now)"

text \<open>The \<^verbatim>\<open>except Exception\<close> block of \<^verbatim>\<open>connect\<close>; both branches raise again.\<close>

definition connect_except :: "real \<Rightarrow> error \<Rightarrow> GatewayHandler \<Rightarrow> error \<times> GatewayHandler" where
  "connect_except now e s =
     (let s1 = logger ERROR ''Gateway connection error''
                 (s\<lparr>reconnect_attempts := reconnect_attempts s + 1\<rparr>)
      in if reconnect_attempts s1 < max_reconnect_attempts s1 then
           (e, emit (Sleep (backoff_delay (reconnect_attempts s1) now))
                 (logger INFO ''Reconnecting'' s1))
         else
           (e, logger ERROR ''Max reconnection attempts reached'' s1))"

text \<open>Whether \<^verbatim>\<open>ws_connect\<close> raises or yields a socket with the messages it will
  deliver.\<close>

datatype connection = Refused | Accepted "ws_message list"

text \<open>\<^verbatim>\<open>connect\<close>. Leaving the \<^verbatim>\<open>async with\<close> closes the socket, on return and on a
  raise. \<open>now\<close> is the reading of the clock in the \<^verbatim>\<open>except\<close> block.\<close>

definition connect ::
  "gateway_reply \<Rightarrow> connection \<Rightarrow> real \<Rightarrow> GatewayHandler \<Rightarrow>
     (error \<times> GatewayHandler) + GatewayHandler" where
  "connect reply conn now s =
     (let s1 = get_gateway_url reply (logger INFO ''Connecting to Discord gateway...'' s)
      in case conn of
           Refused \<Rightarrow> Inl (connect_except now ClientError s1)
         | Accepted msgs \<Rightarrow>
             (let s2 = logger INFO ''Gateway connection established''
                         (s1\<lparr>ws := Some \<lparr>ws_closed = False\<rparr>, reconnect_attempts := 0\<rparr>)
              in case read_loop msgs s2 of
                   Inl r \<Rightarrow> Inl (connect_except now (fst r) (close_ws (snd r)))
                 | Inr s3 \<Rightarrow> Inr (close_ws s3)))"

subsection \<open>Observations\<close>

text \<open>The payloads written to the socket, and the sleeps, among some effects.\<close>

fun sent :: "effect list \<Rightarrow> json list" where
  "sent [] = []"
| "sent (Sent p # es) = p # sent es"
| "sent (e # es) = sent es"

fun slept :: "effect list \<Rightarrow> real list" where
  "slept [] = []"
| "slept (Sleep d # es) = d # slept es"
| "slept (e # es) = slept es"

text \<open>The effects that came after those of an earlier state.\<close>

definition effects_since :: "GatewayHandler \<Rightarrow> GatewayHandler \<Rightarrow> effect list" where
  "effects_since s s' = drop (length (effects s)) (effects s')"

text \<open>The state in which a call ends, whether it returns or raises.\<close>

definition final :: "(error \<times> GatewayHandler) + GatewayHandler \<Rightarrow> GatewayHandler" where
  "final r = (case r of Inl p \<Rightarrow> snd p | Inr s \<Rightarrow> s)"

definition raised :: "(error \<times> GatewayHandler) + GatewayHandler \<Rightarrow> error option" where
  "raised r = (case r of Inl p \<Rightarrow> Some (fst p) | Inr s \<Rightarrow> None)"

text \<open>The opcode of a payload or frame, and the frames that \<open>handle_message\<close> takes
  for a heartbeat acknowledgment.\<close>

definition opcode :: "json \<Rightarrow> json" where
  "opcode p = (case p of JObj kvs \<Rightarrow> dict_get kvs ''op'' | _ \<Rightarrow> JNull)"

definition is_ack :: "json \<Rightarrow> bool" where
  "is_ack f = py_eq (opcode f) 11"

text \<open>The time a task has spent sleeping before it first writes a heartbeat, read off
  its effects; \<open>None\<close> when it writes none.\<close>

fun time_to_heartbeat :: "effect list \<Rightarrow> real option" where
  "time_to_heartbeat [] = None"
| "time_to_heartbeat (Sent p # es) =
     (if py_eq (opcode p) 1 then Some 0 else time_to_heartbeat es)"
| "time_to_heartbeat (Sleep d # es) =
     (case time_to_heartbeat es of None \<Rightarrow> None | Some t \<Rightarrow> Some (max 0 d + t))"
| "time_to_heartbeat (e # es) = time_to_heartbeat es"

subsection \<open>Concrete states and frames\<close>

text \<open>A handler on a fresh, open connection; the HELLO frame of the specification's
  scenario and the state in which its handling ends; a heartbeat request; a dispatch
  carrying sequence number 3.\<close>

definition connected :: GatewayHandler where
  "connected = (GatewayHandler_init ''token'')\<lparr>ws := Some \<lparr>ws_closed = False\<rparr>\<rparr>"

definition hello_frame :: json where
  "hello_frame = JObj [(''op'', JInt 10), (''d'', JObj [(''heartbeat_interval'', JInt 41250)])]"

definition hello_state :: GatewayHandler where
  "hello_state = final (handle_message hello_frame connected)"

definition heartbeat_request :: json where
  "heartbeat_request = JObj [(''op'', JInt 1)]"


definition dispatch_3 :: json where
  "dispatch_3 =
     JObj [(''op'', JInt 0), (''s'', JInt 3), (''t'', JStr ''MESSAGE_CREATE''), (''d'', JObj [])]"

definition unknown_frame :: json where
  "unknown_frame = JObj [(''op'', JInt 42), (''s'', JInt 8)]"

text \<open>A connected handler that holds a session: its identifier and sequence number 5.\<close>

definition in_session :: GatewayHandler where
  "in_session = connected\<lparr>session_id := Some ''abc'', sequence := JInt 5\<rparr>"

text \<open>The same with the empty string for the identifier.\<close>

definition empty_session :: GatewayHandler where
  "empty_session = connected\<lparr>session_id := Some [], sequence := JInt 5\<rparr>"

text \<open>A handler that holds a session and has failed to connect four times in a row.\<close>

definition four_failures :: GatewayHandler where
  "four_failures =
     (GatewayHandler_init ''token'')
       \<lparr>session_id := Some ''abc'', sequence := JInt 5, reconnect_attempts := 4\<rparr>"
section \<open>Properties of the rate limiter\<close>

lemma length_filter_mono:
  "(\<And>x. x \<in> set xs \<Longrightarrow> P x \<Longrightarrow> Q x) \<Longrightarrow> length (filter P xs) \<le> length (filter Q xs)"
  by (induction xs) auto

lemma young_mono: "T \<le> T' \<Longrightarrow> young W T' t \<Longrightarrow> young W T t"
  by (simp add: young_def)

lemma filter_young_pruned:
  "now \<le> T \<Longrightarrow> filter (young W T) (filter (\<lambda>t. now - t < W) B) = filter (young W T) B"
  by (induction B) (auto simp: young_def)

lemma window_inv_later: "window_inv N W c L B \<Longrightarrow> c \<le> c' \<Longrightarrow> window_inv N W c' L B"
  by (simp add: window_inv_def)

lemma window_inv_prune:
  assumes "window_inv N W c L B" "c \<le> now"
  shows "window_inv N W now L (filter (\<lambda>t. now - t < W) B)"
  using assms unfolding window_inv_def
  by (metis (no_types, lifting) filter_young_pruned order_trans)

lemma window_inv_append:
  assumes inv: "window_inv N W c L B"
    and le: "c \<le> stamp"
    and room: "\<And>T. stamp \<le> T \<Longrightarrow> int (length (filter (young W T) B)) + 1 \<le> N"
  shows "window_inv N W stamp (L @ [stamp]) (B @ [stamp])"
proof -
  have eq: "\<And>T. c \<le> T \<Longrightarrow> filter (young W T) L = filter (young W T) B"
    using inv by (simp add: window_inv_def)
  have w1: "\<And>a. int (length (filter (\<lambda>t. a \<le> t \<and> t < a + W) L)) \<le> N"
    using inv by (simp add: window_inv_def)
  have w2: "\<And>a. int (length (filter (\<lambda>t. a < t \<and> t \<le> a + W) L)) \<le> N"
    using inv by (simp add: window_inv_def)
  have yl: "int (length (filter (young W stamp) L)) + 1 \<le> N"
    using eq [OF le] room [of stamp] by simp
  have a1: "int (length (filter (\<lambda>t. a \<le> t \<and> t < a + W) (L @ [stamp]))) \<le> N" for a
  proof (cases "a \<le> stamp \<and> stamp < a + W")
    case True
    have "length (filter (\<lambda>t. a \<le> t \<and> t < a + W) L) \<le> length (filter (young W stamp) L)"
      by (rule length_filter_mono) (use True in \<open>auto simp: young_def\<close>)
    with yl True show ?thesis by simp
  next
    case False
    with w1 [of a] show ?thesis by auto
  qed
  have a2: "int (length (filter (\<lambda>t. a < t \<and> t \<le> a + W) (L @ [stamp]))) \<le> N" for a
  proof (cases "a < stamp \<and> stamp \<le> a + W")
    case True
    have "length (filter (\<lambda>t. a < t \<and> t \<le> a + W) L) \<le> length (filter (young W stamp) L)"
      by (rule length_filter_mono) (use True in \<open>auto simp: young_def\<close>)
    with yl True show ?thesis by simp
  next
    case False
    with w2 [of a] show ?thesis by auto
  qed
  have e: "filter (young W T) (L @ [stamp]) = filter (young W T) (B @ [stamp])" if "stamp \<le> T" for T
    using eq [of T] le that by simp
  have r: "int (length (filter (young W T) (B @ [stamp]))) \<le> N" if "stamp \<le> T" for T
    using room [OF that] by simp
  show ?thesis
    unfolding window_inv_def using a1 a2 e r by blast
qed


lemma pruned_all_young: "filter (young W now) (filter (\<lambda>t. now - t < W) B) = filter (\<lambda>t. now - t < W) B"
  by (induction B) (auto simp: young_def)

lemma requests_of_upd:
  "requests_of b (rl\<lparr>buckets := (buckets rl)(b' \<mapsto> xs)\<rparr>) = (if b = b' then xs else requests_of b rl)"
  by (simp add: requests_of_def)

lemma wait_if_needed_config: "config (snd (wait_if_needed b now lag rl)) = config rl"
  by (simp add: wait_if_needed_def Let_def)

lemma wait_if_needed_other:
  "b \<noteq> b' \<Longrightarrow> requests_of b (snd (wait_if_needed b' now lag rl)) = requests_of b rl"
  by (simp add: wait_if_needed_def Let_def requests_of_upd)

lemma wait_if_needed_stamp:
  "0 \<le> lag \<Longrightarrow> fst (wait_if_needed b now lag rl) = Inr stamp \<Longrightarrow> now \<le> stamp"
  by (auto simp: wait_if_needed_def Let_def split: if_splits)

lemma wait_if_needed_inv:
  assumes inv: "window_inv N W c L (requests_of b rl)"
    and lim: "resolve_limits rl b = (N, W)"
    and now: "c \<le> now" and lag: "0 \<le> lag"
  shows "case fst (wait_if_needed b now lag rl) of
           Inl e \<Rightarrow> window_inv N W now L (requests_of b (snd (wait_if_needed b now lag rl)))
         | Inr stamp \<Rightarrow>
             window_inv N W stamp (L @ [stamp]) (requests_of b (snd (wait_if_needed b now lag rl)))"
proof -
  define pruned where "pruned = filter (\<lambda>t. now - t < W) (requests_of b rl)"
  have P: "window_inv N W now L pruned"
    unfolding pruned_def using inv now by (rule window_inv_prune)
  have "int (length (filter (young W now) pruned)) \<le> N"
    using P by (simp add: window_inv_def)
  moreover have "filter (young W now) pruned = pruned"
    unfolding pruned_def by (rule pruned_all_young)
  ultimately have len: "int (length pruned) \<le> N"
    by simp
  show ?thesis
  proof (cases "N \<le> int (length pruned)")
    case full: True
    show ?thesis
    proof (cases "pruned = []")
      case True
      with full P lim show ?thesis
        by (simp add: wait_if_needed_def Let_def requests_of_upd pruned_def)
    next
      case False
      define m where "m = Min (set pruned)"
      define stamp where "stamp = now + max 0 (W - (now - m)) + lag"
      have m_in: "m \<in> set pruned"
        unfolding m_def using False by (intro Min_in) auto
      have le: "now \<le> stamp" and old: "W \<le> stamp - m"
        using lag by (auto simp: stamp_def max_def)
      have room: "int (length (filter (young W T) pruned)) + 1 \<le> N" if "stamp \<le> T" for T
      proof -
        have "\<not> young W T m"
          using old that by (simp add: young_def)
        with m_in have "length (filter (young W T) pruned) < length pruned"
          by (rule length_filter_less)
        with len show ?thesis by linarith
      qed
      have "window_inv N W stamp (L @ [stamp]) (pruned @ [stamp])"
        using P le room by (rule window_inv_append)
      with full False lim show ?thesis
        by (simp add: wait_if_needed_def Let_def requests_of_upd pruned_def m_def stamp_def)
    qed
  next
    case free: False
    define stamp where "stamp = now + lag"
    have le: "now \<le> stamp"
      using lag by (simp add: stamp_def)
    have room: "int (length (filter (young W T) pruned)) + 1 \<le> N" for T
    proof -
      have "length (filter (young W T) pruned) \<le> length pruned"
        by (rule length_filter_le)
      with free show ?thesis by linarith
    qed
    have "window_inv N W stamp (L @ [stamp]) (pruned @ [stamp])"
      using P le room by (rule window_inv_append)
    with free lim show ?thesis
      by (simp add: wait_if_needed_def Let_def requests_of_upd pruned_def stamp_def)
  qed
qed


lemma resolve_limits_config:
  "config rl = config rl' \<Longrightarrow> resolve_limits rl b = resolve_limits rl' b"
  by (simp add: resolve_limits_def)

lemma step_config: "config (limiter (step w c)) = config (limiter w)"
  by (simp add: step_def Let_def wait_if_needed_config split: sum.split)

lemma run_config: "config (limiter (run cs w)) = config (limiter w)"
  unfolding run_def by (induction cs arbitrary: w) (simp_all add: step_config)

lemma step_inv:
  assumes inv: "window_inv N W (clock w) (admissions b w) (requests_of b (limiter w))"
    and lim: "resolve_limits (limiter w) b = (N, W)"
    and idle: "0 \<le> c_idle c" and lag: "0 \<le> c_lag c"
  shows "window_inv N W (clock (step w c)) (admissions b (step w c))
           (requests_of b (limiter (step w c)))"
proof (cases "c_bucket c = b")
  case True
  have "clock w \<le> clock w + c_idle c"
    using idle by simp
  from wait_if_needed_inv [OF inv lim this lag] True show ?thesis
    by (simp add: step_def Let_def admissions_def split: sum.splits)
next
  case False
  define now where "now = clock w + c_idle c"
  have le: "clock w \<le> now"
    using idle by (simp add: now_def)
  have same: "requests_of b (snd (wait_if_needed (c_bucket c) now (c_lag c) (limiter w)))
      = requests_of b (limiter w)"
    using False by (simp add: wait_if_needed_other)
  show ?thesis
  proof (cases "fst (wait_if_needed (c_bucket c) now (c_lag c) (limiter w))")
    case (Inl e)
    with False same window_inv_later [OF inv le] show ?thesis
      by (simp add: step_def Let_def admissions_def now_def)
  next
    case (Inr stamp)
    with lag have "now \<le> stamp"
      by (simp add: wait_if_needed_stamp)
    with le have "clock w \<le> stamp" by simp
    with Inr False same window_inv_later [OF inv this] show ?thesis
      by (simp add: step_def Let_def admissions_def now_def)
  qed
qed

lemma run_inv:
  assumes "\<forall>c\<in>set cs. 0 \<le> c_idle c \<and> 0 \<le> c_lag c"
    and "window_inv N W (clock w) (admissions b w) (requests_of b (limiter w))"
    and "resolve_limits (limiter w) b = (N, W)"
  shows "window_inv N W (clock (run cs w)) (admissions b (run cs w))
           (requests_of b (limiter (run cs w)))"
  using assms
proof (induction cs arbitrary: w)
  case Nil
  then show ?case by (simp add: run_def)
next
  case (Cons c cs)
  have "window_inv N W (clock (step w c)) (admissions b (step w c))
          (requests_of b (limiter (step w c)))"
    using Cons.prems by (intro step_inv) auto
  moreover have "resolve_limits (limiter (step w c)) b = (N, W)"
    using Cons.prems(3) resolve_limits_config [OF step_config, of w c b] by simp
  ultimately have "window_inv N W (clock (run cs (step w c))) (admissions b (run cs (step w c)))
           (requests_of b (limiter (run cs (step w c))))"
    using Cons.prems(1) by (intro Cons.IH) auto
  then show ?case by (simp add: run_def)
qed

lemma start_inv: "0 \<le> N \<Longrightarrow>
  window_inv N W (clock (start t0 cfg)) (admissions b (start t0 cfg))
    (requests_of b (limiter (start t0 cfg)))"
  by (simp add: window_inv_def start_def admissions_def requests_of_def RateLimiter_init_def)

lemma scenario_limits:
  "resolve_limits (RateLimiter_init (Some scenario_config)) ''message'' = (2, 5)"
  by (simp add: resolve_limits_def RateLimiter_init_def scenario_config_def)

lemma scenario_run:
  "admissions ''message'' (run [at_once, at_once, at_once] (start 0 (Some scenario_config)))
     = [0, 0, 5] \<and>
   clock (run [at_once, at_once, at_once] (start 0 (Some scenario_config))) = 5"
  by (simp add: run_def step_def start_def wait_if_needed_def resolve_limits_def
      RateLimiter_init_def scenario_config_def at_once_def requests_of_def admissions_def Let_def)

subsection \<open>Where the bound fails\<close>

lemma wait_if_needed_split:
  "wait_if_needed b now lag rl =
     (case fst (wait_check b now rl) of
        Inl e \<Rightarrow> (Inl e, snd (wait_check b now rl))
      | Inr None \<Rightarrow> (Inr (now + lag), wait_append b (now + lag) (snd (wait_check b now rl)))
      | Inr (Some d) \<Rightarrow>
          (Inr (now + max 0 d + lag),
           wait_append b (now + max 0 d + lag) (snd (wait_check b now rl))))"
  by (simp add: wait_if_needed_def wait_check_def wait_append_def requests_of_def Let_def)

lemma enter_wake_step:
  "sleeping t = [] \<Longrightarrow> wake (enter c t) = idle_tasks (step (base t) c)"
  by (cases "fst (wait_check (c_bucket c) (clock (base t) + c_idle c) (limiter (base t)))")
     (auto simp: enter_def wake_def step_def idle_tasks_def wait_if_needed_split Let_def
        split: option.splits)

lemma overlap_run:
  "admissions ''message''
     (base (interleave [Enter at_once, Enter at_once, Enter a_second_later, Enter at_once,
        Enter at_once, Wake, Wake, Wake] (idle_tasks (start 0 (Some scenario_config)))))
     = [0, 0, 5, 5, 5]"
  by (simp add: interleave_def enter_def wake_def idle_tasks_def start_def wait_check_def
      wait_append_def resolve_limits_def RateLimiter_init_def scenario_config_def at_once_def
      a_second_later_def requests_of_def admissions_def Let_def)

lemma early_run:
  "admissions ''message'' (run [at_once, at_once, read_early] (start 0 (Some scenario_config)))
     = [0, 0, 4999 / 1000]"
  by (simp add: run_def step_def start_def wait_if_needed_def resolve_limits_def
      RateLimiter_init_def scenario_config_def at_once_def read_early_def requests_of_def
      admissions_def Let_def)

text \<open>Claim C1, as stated, fails, on the bucket with cap 2 and window 5, in three ways.
  Callers that overlap: with the bucket at \<open>[0, 0]\<close>, three callers that enter at time
  1 all pass the test before any of them appends and all append at time 5, so the
  interval from 5 to 10 holds three admissions. Intervals with both ends: of three
  calls made one after the other at time 0 the third is admitted at exactly 5, so the
  closed interval from 0 to 5 holds three admissions. Clock readings: when the
  reading after the sleep falls short of the end of the sleep by a millisecond, the
  third admission is at 4.999 and the interval from 0 to 5 holds three, even without
  its end.\<close>

theorem window_bound_fails:
  "resolve_limits (RateLimiter_init (Some scenario_config)) ''message'' = (2, 5) \<and>
   count_in 5 (5 + 5) (admissions ''message''
     (base (interleave [Enter at_once, Enter at_once, Enter a_second_later, Enter at_once,
        Enter at_once, Wake, Wake, Wake] (idle_tasks (start 0 (Some scenario_config)))))) = 3 \<and>
   count_within 0 (0 + 5) (admissions ''message''
     (run [at_once, at_once, at_once] (start 0 (Some scenario_config)))) = 3 \<and>
   count_in 0 (0 + 5) (admissions ''message''
     (run [at_once, at_once, read_early] (start 0 (Some scenario_config)))) = 3"
  using scenario_limits scenario_run overlap_run early_run
  by (simp add: count_in_def count_within_def)

subsection \<open>Where the bound holds\<close>

text \<open>Claim C1, amended. Calls on a limiter built by \<open>RateLimiter_init\<close> are made one
  after the other, each starting no earlier than the previous one returned and
  reading the clock for its time stamp no earlier than its sleep ended; calls on
  other buckets may come in between. For a bucket whose cap \<open>max_requests\<close> is not
  negative and whose window is \<open>window\<close>: every half-open time interval of length
  \<open>window\<close>, closed at its start or at its end, contains at most \<open>max_requests\<close>
  admissions of the bucket, and from the moment the last call has returned the bucket
  never holds more than \<open>max_requests\<close> time stamps younger than \<open>window\<close>.\<close>

theorem sliding_window:
  assumes calls: "\<forall>c\<in>set cs. 0 \<le> c_idle c \<and> 0 \<le> c_lag c"
    and lim: "resolve_limits (RateLimiter_init cfg) b = (max_requests, window)"
    and cap: "0 \<le> max_requests"
  shows "(\<forall>a. int (length (filter (\<lambda>t. a \<le> t \<and> t < a + window)
                 (admissions b (run cs (start t0 cfg))))) \<le> max_requests) \<and>
         (\<forall>a. int (length (filter (\<lambda>t. a < t \<and> t \<le> a + window)
                 (admissions b (run cs (start t0 cfg))))) \<le> max_requests) \<and>
         (\<forall>T\<ge>clock (run cs (start t0 cfg)).
             int (length (filter (\<lambda>t. T - t < window)
                 (requests_of b (limiter (run cs (start t0 cfg)))))) \<le> max_requests)"
proof -
  have "resolve_limits (limiter (start t0 cfg)) b = (max_requests, window)"
    using lim by (simp add: start_def)
  from run_inv [OF calls start_inv [OF cap] this]
  show ?thesis
    unfolding window_inv_def young_def by blast
qed

text \<open>The scenario of the specification as an instance of the amended C1: three calls at time 0 on
  the bucket with cap 2 and window 5 are admitted at 0, 0 and 5.\<close>

theorem sliding_window_witness:
  "0 \<le> c_idle at_once \<and> 0 \<le> c_lag at_once \<and>
   resolve_limits (RateLimiter_init (Some scenario_config)) ''message'' = (2, 5) \<and>
   (\<forall>a. int (length (filter (\<lambda>t. a \<le> t \<and> t < a + 5)
       (admissions ''message''
          (run [at_once, at_once, at_once] (start 0 (Some scenario_config)))))) \<le> 2) \<and>
   int (length (filter (\<lambda>t. 5 - t < 5)
       (requests_of ''message''
          (limiter (run [at_once, at_once, at_once] (start 0 (Some scenario_config))))))) \<le> 2"
proof -
  have calls: "\<forall>c\<in>set [at_once, at_once, at_once]. 0 \<le> c_idle c \<and> 0 \<le> c_lag c"
    by (simp add: at_once_def)
  have cap: "(0::int) \<le> 2"
    by simp
  note w = sliding_window [OF calls scenario_limits cap, of 0]
  have "clock (run [at_once, at_once, at_once] (start 0 (Some scenario_config))) \<le> 5"
    using scenario_run by simp
  with w have "int (length (filter (\<lambda>t. 5 - t < 5)
       (requests_of ''message''
          (limiter (run [at_once, at_once, at_once] (start 0 (Some scenario_config))))))) \<le> 2"
    by blast
  moreover from w have "\<forall>a. int (length (filter (\<lambda>t. a \<le> t \<and> t < a + 5)
       (admissions ''message''
          (run [at_once, at_once, at_once] (start 0 (Some scenario_config)))))) \<le> 2"
    by blast
  ultimately show ?thesis
    using scenario_limits by (simp add: at_once_def)
qed

subsection \<open>The limiter of the bot\<close>

lemma send_message_config:
  "config (rate_limiter (snd (send_message now lag usr))) = config (rate_limiter usr)"
  by (simp add: send_message_def Let_def wait_if_needed_config)

lemma send_messages_config:
  "config (rate_limiter (send_messages cs usr)) = config (rate_limiter usr)"
  by (induction cs arbitrary: usr) (simp_all add: send_message_config)

lemma send_messages_limiter:
  "rate_limiter usr = rate_limiter usr' \<Longrightarrow>
   rate_limiter (send_messages cs usr) = rate_limiter (send_messages cs usr')"
  by (induction cs arbitrary: usr usr') (simp_all add: send_message_def Let_def)

text \<open>Claim C10. Whatever configuration the bot is built with, and after any number of
  calls of \<open>send_message\<close>, the limiter resolves the bucket \<^verbatim>\<open>message\<close> to the built-in
  5 requests per 5 seconds, and the limiter is the same as for any other
  configuration: the \<^verbatim>\<open>rate_limits\<close> of the configuration are never consulted.\<close>

theorem bot_limiter_default:
  "resolve_limits (rate_limiter (send_messages cs (DiscordUser_init cfg))) ''message'' = (5, 5) \<and>
   rate_limiter (send_messages cs (DiscordUser_init cfg)) =
     rate_limiter (send_messages cs (DiscordUser_init cfg'))"
proof
  have "config (rate_limiter (send_messages cs (DiscordUser_init cfg))) = empty_config"
    by (simp add: send_messages_config DiscordUser_init_def RateLimiter_init_def)
  then show "resolve_limits (rate_limiter (send_messages cs (DiscordUser_init cfg))) ''message''
      = (5, 5)"
    by (simp add: resolve_limits_def empty_config_def default_limits_def)
  show "rate_limiter (send_messages cs (DiscordUser_init cfg)) =
     rate_limiter (send_messages cs (DiscordUser_init cfg'))"
    by (rule send_messages_limiter) (simp add: DiscordUser_init_def)
qed

text \<open>In particular a configuration that sets the bucket to 2 requests per 5 seconds
  leaves the bot at 5 per 5.\<close>

lemma configured_limits_ignored:
  "resolve_limits (rate_limiter (DiscordUser_init scenario_config)) ''message'' = (5, 5)"
  by (simp add: DiscordUser_init_def RateLimiter_init_def resolve_limits_def empty_config_def
      default_limits_def)

section \<open>Properties of the gateway handler\<close>

lemmas gw_defs = emit_def logger_def ws_open_def send_payload_def
  send_heartbeat_def identify_def resume_def close_def close_ws_def

lemma py_eq_unique: "py_eq v a \<Longrightarrow> py_eq v b \<Longrightarrow> a = b"
  by (cases v) (auto split: if_splits)

lemma store_sequence_simps:
  "effects (store_sequence sq s) = effects s" "ws (store_sequence sq s) = ws s"
  "token (store_sequence sq s) = token s" "session_id (store_sequence sq s) = session_id s"
  "last_heartbeat_ack (store_sequence sq s) = last_heartbeat_ack s"
  "ws_open (store_sequence sq s) = ws_open s"
  "reconnect_attempts (store_sequence sq s) = reconnect_attempts s"
  "max_reconnect_attempts (store_sequence sq s) = max_reconnect_attempts s"
  by (simp_all add: store_sequence_def ws_open_def)

lemma hello_interval_scenario:
  "hello_interval (dict_get [(''op'', JInt 10), (''d'', JObj [(''heartbeat_interval'', JInt 41250)])] ''d'')
     = Inr (165 / 4)"
  by (simp add: hello_interval_def dict_get_def)

lemma hello_state_eq:
  "hello_state = connected\<lparr>heartbeat_interval := Some (165 / 4),
     effects := [Log INFO ''Gateway hello received'', Task_created,
                 Sent (identify_payload ''token''),
                 Log INFO ''Identification sent to gateway (user token)'']\<rparr>"
  by (simp add: handle_message_def hello_interval_def dict_get_def final_def gw_defs connected_def hello_frame_def hello_state_def GatewayHandler_init_def
      store_sequence_def Let_def)

subsection \<open>INVALID SESSION\<close>




subsection \<open>HELLO\<close>

lemma handle_hello:
  assumes "py_eq (dict_get kvs ''op'') 10" and "hello_interval (dict_get kvs ''d'') = Inr i"
  shows "handle_message (JObj kvs) s =
     Inr ((if session_id s \<noteq> None \<and> session_id s \<noteq> Some [] then resume else identify)
       (emit Task_created (logger INFO ''Gateway hello received''
          ((store_sequence (dict_get kvs ''s'') s)\<lparr>heartbeat_interval := Some i\<rparr>))))"
proof -
  have "\<not> py_eq (dict_get kvs ''op'') 0" "\<not> py_eq (dict_get kvs ''op'') 1"
    "\<not> py_eq (dict_get kvs ''op'') 7" "\<not> py_eq (dict_get kvs ''op'') 9"
    using assms(1) py_eq_unique by fastforce+
  with assms show ?thesis
    by (simp add: handle_message_def Let_def emit_def logger_def store_sequence_simps)
qed

text \<open>Claim C5, as stated, fails where the session identifier is the empty string: it
  is not null, yet \<^verbatim>\<open>if self.session_id\<close> is false and the handler identifies.\<close>

theorem hello_empty_session_identifies:
  "session_id empty_session = Some [] \<and>
   raised (handle_message hello_frame empty_session) = None \<and>
   sent (effects_since empty_session (final (handle_message hello_frame empty_session)))
     = [identify_payload ''token'']"
  by (simp add: handle_message_def hello_interval_def dict_get_def final_def raised_def
      effects_since_def gw_defs empty_session_def connected_def hello_frame_def GatewayHandler_init_def store_sequence_def Let_def)

text \<open>Claim C5, amended. In every state with an open socket, handling a HELLO frame
  with a usable \<^verbatim>\<open>heartbeat_interval\<close> sends exactly one payload: when the session
  identifier is neither null nor the empty string, the resume payload (opcode 6)
  whose \<^verbatim>\<open>d\<close> carries the token, that identifier and the stored sequence (the frame's
  own \<^verbatim>\<open>s\<close> if it has one); otherwise, when the identifier is unset or empty, the
  identify payload.\<close>

theorem hello_resumes:
  assumes "py_eq (dict_get kvs ''op'') 10" and "hello_interval (dict_get kvs ''d'') = Inr i"
    and "ws_open s"
  shows "raised (handle_message (JObj kvs) s) = None \<and>
         sent (effects_since s (final (handle_message (JObj kvs) s))) =
           [if session_id s \<noteq> None \<and> session_id s \<noteq> Some []
            then resume_payload (token s) (session_id s)
                   (sequence (store_sequence (dict_get kvs ''s'') s))
            else identify_payload (token s)]"
  unfolding handle_hello [OF assms(1,2)] using assms(3)
  by (simp add: raised_def final_def gw_defs store_sequence_simps effects_since_def
      split: option.splits)

theorem hello_resumes_witness:
  "py_eq (dict_get [(''op'', JInt 10), (''d'', JObj [(''heartbeat_interval'', JInt 41250)])] ''op'') 10 \<and>
   ws_open in_session \<and>
   sent (effects_since in_session (final (handle_message hello_frame in_session))) =
     [JObj [(''op'', JInt 6),
            (''d'', JObj [(''token'', JStr ''token''), (''session_id'', JStr ''abc''),
                          (''seq'', JInt 5)])]]"
proof -
  have op: "py_eq (dict_get [(''op'', JInt 10),
      (''d'', JObj [(''heartbeat_interval'', JInt 41250)])] ''op'') 10"
    by (simp add: dict_get_def)
  have opn: "ws_open in_session"
    by (simp add: in_session_def connected_def ws_open_def)
  from hello_resumes [OF op hello_interval_scenario opn] op opn show ?thesis
    by (simp add: hello_frame_def in_session_def connected_def GatewayHandler_init_def
        resume_payload_def store_sequence_def dict_get_def)
qed

subsection \<open>The first heartbeat\<close>

text \<open>Claim C3, as stated, fails: after the HELLO frame with
  \<^verbatim>\<open>heartbeat_interval\<close> 41250 the loop's first effect is the heartbeat, written
  before the loop has slept at all; the sleep of 41.25 seconds comes after it.\<close>

theorem first_heartbeat_not_delayed:
  "heartbeat_interval hello_state = Some (165 / 4) \<and>
   fst (heartbeat_loop [[]] hello_state) = Running \<and>
   effects_since hello_state (snd (heartbeat_loop [[]] hello_state)) =
     [Sent (heartbeat_payload JNull), Log DEBUG ''Heartbeat sent'', Sleep (165 / 4)] \<and>
   time_to_heartbeat (effects_since hello_state (snd (heartbeat_loop [[]] hello_state))) = Some 0"
  by (simp add: hello_state_eq heartbeat_iter_def effects_since_def opcode_def dict_get_def
      gw_defs connected_def GatewayHandler_init_def Let_def heartbeat_payload_def)

text \<open>Claim C3, amended. After a HELLO frame carrying a usable \<^verbatim>\<open>heartbeat_interval\<close>,
  handled on an open socket whose last heartbeat is acknowledged, the first pass of
  the heartbeat loop sends a heartbeat at once, before any sleep, and only then
  sleeps the interval: for 41250 ms the first heartbeat goes out 0 seconds after the
  loop starts and the loop then sleeps 41.25 seconds.\<close>

theorem hello_heartbeat_at_once:
  assumes "py_eq (dict_get kvs ''op'') 10" and "hello_interval (dict_get kvs ''d'') = Inr i"
    and "ws_open s" and "last_heartbeat_ack s"
  shows "heartbeat_interval (final (handle_message (JObj kvs) s)) = Some i \<and>
         fst (heartbeat_iter (final (handle_message (JObj kvs) s))) = Running \<and>
         effects_since (final (handle_message (JObj kvs) s))
             (snd (heartbeat_iter (final (handle_message (JObj kvs) s)))) =
           [Sent (heartbeat_payload (sequence (final (handle_message (JObj kvs) s)))),
            Log DEBUG ''Heartbeat sent'', Sleep i] \<and>
         time_to_heartbeat
           (effects_since (final (handle_message (JObj kvs) s))
             (snd (heartbeat_iter (final (handle_message (JObj kvs) s))))) = Some 0"
  unfolding handle_hello [OF assms(1,2)] using assms(3,4)
  by (simp add: final_def gw_defs store_sequence_simps effects_since_def heartbeat_iter_def
      Let_def heartbeat_payload_def opcode_def dict_get_def split: option.splits)

theorem hello_heartbeat_at_once_witness:
  "py_eq (dict_get [(''op'', JInt 10), (''d'', JObj [(''heartbeat_interval'', JInt 41250)])] ''op'') 10 \<and>
   ws_open connected \<and> last_heartbeat_ack connected \<and>
   heartbeat_interval (final (handle_message hello_frame connected)) = Some (165 / 4) \<and>
   effects_since (final (handle_message hello_frame connected))
       (snd (heartbeat_iter (final (handle_message hello_frame connected)))) =
     [Sent (heartbeat_payload (sequence (final (handle_message hello_frame connected)))),
      Log DEBUG ''Heartbeat sent'', Sleep (165 / 4)]"
proof -
  have op: "py_eq (dict_get [(''op'', JInt 10),
      (''d'', JObj [(''heartbeat_interval'', JInt 41250)])] ''op'') 10"
    by (simp add: dict_get_def)
  have opn: "ws_open connected" and ack: "last_heartbeat_ack connected"
    by (simp_all add: connected_def ws_open_def GatewayHandler_init_def)
  from hello_heartbeat_at_once [OF op hello_interval_scenario opn ack] op opn ack
  show ?thesis
    by (simp add: hello_frame_def)
qed

subsection \<open>Unacknowledged heartbeats\<close>

lemma handle_message_unacked:
  assumes "handle_message f s = Inr s'" and "\<not> is_ack f" and "\<not> last_heartbeat_ack s"
  shows "\<not> last_heartbeat_ack s'"
proof (cases f)
  case (JObj kvs)
  with assms(2) have na: "\<not> py_eq (dict_get kvs ''op'') 11"
    by (simp add: is_ack_def opcode_def)
  from assms(1,3) na show ?thesis
    unfolding JObj handle_message_def Let_def
    by (auto simp: gw_defs store_sequence_def split: if_splits sum.splits)
qed (use assms in \<open>simp_all add: handle_message_def\<close>)

lemma handle_messages_unacked:
  assumes "handle_messages fs s = Inr s'" and "\<forall>f\<in>set fs. \<not> is_ack f"
    and "\<not> last_heartbeat_ack s"
  shows "\<not> last_heartbeat_ack s'"
  using assms
proof (induction fs arbitrary: s)
  case Nil
  then show ?case by simp
next
  case (Cons f fs)
  from Cons.prems(1) obtain s1 where h: "handle_message f s = Inr s1"
    and r: "handle_messages fs s1 = Inr s'"
    by (auto split: sum.splits)
  from Cons.prems(2) have nf: "\<not> is_ack f" and nfs: "\<forall>f\<in>set fs. \<not> is_ack f"
    by simp_all
  from h nf Cons.prems(3) have "\<not> last_heartbeat_ack s1"
    by (rule handle_message_unacked)
  with r nfs show ?case
    by (rule Cons.IH)
qed

text \<open>Claim C2, as stated, fails: the loop never closes the socket. After the first
  heartbeat of the loop and a second one requested by the server (opcode 1), with no
  acknowledgment in between, the loop ends at its next pass; the socket is still
  open, and a further request is answered with a third heartbeat.\<close>

theorem three_heartbeats_socket_open:
  "fst (heartbeat_loop [[heartbeat_request], []] hello_state) = Exited \<and>
   sent (effects_since hello_state
      (final (handle_message heartbeat_request
         (snd (heartbeat_loop [[heartbeat_request], []] hello_state))))) =
     [heartbeat_payload JNull, heartbeat_payload JNull, heartbeat_payload JNull] \<and>
   ws_open (final (handle_message heartbeat_request
         (snd (heartbeat_loop [[heartbeat_request], []] hello_state)))) \<and>
   Socket_closed \<notin> set (effects (final (handle_message heartbeat_request
         (snd (heartbeat_loop [[heartbeat_request], []] hello_state)))))"
  by (simp add: hello_state_eq heartbeat_iter_def handle_message_def dict_get_def final_def
      effects_since_def store_sequence_def gw_defs heartbeat_request_def connected_def GatewayHandler_init_def Let_def heartbeat_payload_def)

text \<open>Claim C2, amended. If no heartbeat acknowledgment (opcode 11) is handled between
  a heartbeat send and the next pass of the heartbeat loop, that pass ends the loop
  without sending another heartbeat: on an open socket it only logs that the
  connection may be dead. It does not close the socket, which stays as it was.\<close>

theorem unacked_heartbeat_ends_loop:
  assumes "handle_messages frames (send_heartbeat s) = Inr s'"
    and "\<forall>f\<in>set frames. \<not> is_ack f"
  shows "fst (heartbeat_iter s') = Exited \<and>
         effects_since s' (snd (heartbeat_iter s')) =
           (if ws_open s' then [Log WARNING ''Heartbeat not acknowledged, connection may be dead'']
            else []) \<and>
         ws (snd (heartbeat_iter s')) = ws s'"
proof -
  have "\<not> last_heartbeat_ack (send_heartbeat s)"
    by (simp add: gw_defs)
  with assms have "\<not> last_heartbeat_ack s'"
    by (rule handle_messages_unacked)
  then show ?thesis
    by (simp add: heartbeat_iter_def effects_since_def logger_def emit_def)
qed

theorem unacked_heartbeat_ends_loop_witness:
  "handle_messages [heartbeat_request] (send_heartbeat hello_state) =
     Inr (send_heartbeat (send_heartbeat hello_state)) \<and>
   \<not> is_ack heartbeat_request \<and>
   fst (heartbeat_iter (send_heartbeat (send_heartbeat hello_state))) = Exited \<and>
   ws (snd (heartbeat_iter (send_heartbeat (send_heartbeat hello_state)))) =
     Some \<lparr>ws_closed = False\<rparr>"
proof -
  have h: "handle_messages [heartbeat_request] (send_heartbeat hello_state) =
     Inr (send_heartbeat (send_heartbeat hello_state))"
    by (simp add: handle_message_def heartbeat_request_def dict_get_def store_sequence_def)
  have n: "\<forall>f\<in>set [heartbeat_request]. \<not> is_ack f"
    by (simp add: is_ack_def opcode_def heartbeat_request_def dict_get_def)
  have "ws (send_heartbeat (send_heartbeat hello_state)) = Some \<lparr>ws_closed = False\<rparr>"
    by (simp add: hello_state_eq gw_defs connected_def)
  with unacked_heartbeat_ends_loop [OF h n] h n show ?thesis
    by simp
qed

subsection \<open>The stored sequence number\<close>

text \<open>Claim C9, as stated, fails: in a session whose stored sequence is 5, a dispatch
  frame carrying \<^verbatim>\<open>s\<close> = 3 is handled without error and leaves 3 stored, which is
  less than 5.\<close>

theorem sequence_decreases:
  "sequence in_session = JInt 5 \<and>
   raised (handle_message dispatch_3 in_session) = None \<and>
   sequence (final (handle_message dispatch_3 in_session)) = JInt 3"
  by (simp add: handle_message_def dict_get_def final_def raised_def store_sequence_def
      gw_defs in_session_def dispatch_3_def connected_def GatewayHandler_init_def Let_def)

text \<open>Claim C9, amended. For any frame that carries a non-null \<^verbatim>\<open>s\<close> and whose opcode
  is not 9, the stored sequence after handling is that \<^verbatim>\<open>s\<close>, whatever was stored
  before: the stored sequence follows the values the server sends.\<close>

theorem sequence_follows_frame:
  assumes "dict_get kvs ''s'' \<noteq> JNull" and "\<not> py_eq (dict_get kvs ''op'') 9"
  shows "sequence (final (handle_message (JObj kvs) s)) = dict_get kvs ''s''"
  using assms unfolding handle_message_def Let_def
  by (auto simp: gw_defs store_sequence_def final_def split: sum.splits)

theorem sequence_follows_frame_witness:
  "dict_get [(''op'', JInt 0), (''s'', JInt 3), (''t'', JStr ''MESSAGE_CREATE''), (''d'', JObj [])] ''s''
     \<noteq> JNull \<and>
   \<not> py_eq (dict_get [(''op'', JInt 0), (''s'', JInt 3), (''t'', JStr ''MESSAGE_CREATE''),
       (''d'', JObj [])] ''op'') 9 \<and>
   sequence (final (handle_message dispatch_3 in_session)) = JInt 3"
proof -
  have a: "dict_get [(''op'', JInt 0), (''s'', JInt 3), (''t'', JStr ''MESSAGE_CREATE''),
      (''d'', JObj [])] ''s'' \<noteq> JNull"
    by (simp add: dict_get_def)
  have b: "\<not> py_eq (dict_get [(''op'', JInt 0), (''s'', JInt 3), (''t'', JStr ''MESSAGE_CREATE''),
       (''d'', JObj [])] ''op'') 9"
    by (simp add: dict_get_def)
  from sequence_follows_frame [OF a b, of in_session] a b show ?thesis
    by (simp add: dispatch_3_def dict_get_def)
qed

subsection \<open>The read loop and connect\<close>

lemma handle_unknown:
  assumes "\<forall>n\<in>{0, 1, 7, 9, 10, 11}. \<not> py_eq (dict_get kvs ''op'') n"
  shows "handle_message (JObj kvs) s = Inr (store_sequence (dict_get kvs ''s'') s)"
  using assms by (simp add: handle_message_def Let_def)

lemma handle_message_attempts:
  "reconnect_attempts (final (handle_message f s)) = reconnect_attempts s \<and>
   max_reconnect_attempts (final (handle_message f s)) = max_reconnect_attempts s"
proof (cases f)
  case (JObj kvs)
  show ?thesis
    unfolding JObj handle_message_def Let_def
    by (auto simp: gw_defs store_sequence_def final_def split: sum.splits)
qed (simp_all add: handle_message_def final_def)

lemma read_loop_attempts:
  "reconnect_attempts (final (read_loop ms s)) = reconnect_attempts s \<and>
   max_reconnect_attempts (final (read_loop ms s)) = max_reconnect_attempts s"
proof (induction ms arbitrary: s)
  case Nil
  then show ?case by (simp add: final_def)
next
  case (Cons m ms)
  show ?case
  proof (cases "ws_open s")
    case False
    then show ?thesis by (simp add: final_def)
  next
    case True
    show ?thesis
    proof (cases m)
      case (Text x)
      show ?thesis
      proof (cases x)
        case None
        with True Text show ?thesis by (simp add: final_def)
      next
        case (Some data)
        show ?thesis
        proof (cases "handle_message data s")
          case (Inl r)
          with handle_message_attempts [of data s] True Text Some show ?thesis
            by (simp add: final_def)
        next
          case (Inr s')
          with handle_message_attempts [of data s] Cons.IH [of s'] True Text Some show ?thesis
            by (simp add: final_def)
        qed
      qed
    next
      case Error_msg
      with True show ?thesis by (simp add: final_def logger_def emit_def)
    next
      case Close_msg
      with True show ?thesis by (simp add: final_def logger_def emit_def)
    next
      case Other_msg
      with True Cons.IH [of s] show ?thesis by simp
    qed
  qed
qed

lemma get_gateway_url_simps:
  "reconnect_attempts (get_gateway_url r s) = reconnect_attempts s"
  "max_reconnect_attempts (get_gateway_url r s) = max_reconnect_attempts s"
  "session_id (get_gateway_url r s) = session_id s"
  "sequence (get_gateway_url r s) = sequence s"
  "slept (drop (length (effects s)) (effects (get_gateway_url r s))) = []"
  by (cases r; simp add: get_gateway_url_def logger_def emit_def)+

lemma connect_except_simps:
  "fst (connect_except now e s) = e"
  "reconnect_attempts (snd (connect_except now e s)) = reconnect_attempts s + 1"
  "max_reconnect_attempts (snd (connect_except now e s)) = max_reconnect_attempts s"
  "session_id (snd (connect_except now e s)) = session_id s"
  "sequence (snd (connect_except now e s)) = sequence s"
  by (simp_all add: connect_except_def Let_def logger_def emit_def)

lemma connect_except_sleep:
  "reconnect_attempts s + 1 < max_reconnect_attempts s \<Longrightarrow>
   last (effects (snd (connect_except now e s))) =
     Sleep (backoff_delay (reconnect_attempts s + 1) now)"
  by (simp add: connect_except_def Let_def logger_def emit_def)

lemma backoff_delay_bounds:
  "0 \<le> backoff_delay k now \<and> backoff_delay k now \<le> min 300 (2 ^ k + 1)"
proof -
  have "0 \<le> frac now" and "frac now < 1"
    by (simp_all add: frac_lt_1)
  moreover have "(0::real) \<le> 2 ^ k"
    by simp
  ultimately show ?thesis
    unfolding backoff_delay_def by (auto simp: min_def)
qed

lemma connect_raised:
  assumes "raised (connect reply conn now s) \<noteq> None"
  shows "\<exists>e s0. final (connect reply conn now s) = snd (connect_except now e s0) \<and>
           max_reconnect_attempts s0 = max_reconnect_attempts s \<and>
           reconnect_attempts s0 = (case conn of Refused \<Rightarrow> reconnect_attempts s | Accepted ms \<Rightarrow> 0)"
proof (cases conn)
  case Refused
  then show ?thesis
    by (auto simp: connect_def Let_def final_def get_gateway_url_simps logger_def emit_def
        intro!: exI)
next
  case (Accepted ms)
  define s2 where "s2 = logger INFO ''Gateway connection established''
     ((get_gateway_url reply (logger INFO ''Connecting to Discord gateway...'' s))
        \<lparr>ws := Some \<lparr>ws_closed = False\<rparr>, reconnect_attempts := 0\<rparr>)"
  have s2: "reconnect_attempts s2 = 0" "max_reconnect_attempts s2 = max_reconnect_attempts s"
    by (simp_all add: s2_def logger_def emit_def get_gateway_url_simps)
  show ?thesis
  proof (cases "read_loop ms s2")
    case (Inl r)
    from read_loop_attempts [of ms s2] Inl s2
    have r: "reconnect_attempts (snd r) = 0" "max_reconnect_attempts (snd r) = max_reconnect_attempts s"
      by (simp_all add: final_def)
    have c: "connect reply conn now s = Inl (connect_except now (fst r) (close_ws (snd r)))"
      using Accepted Inl by (simp add: connect_def Let_def s2_def)
    have "reconnect_attempts (close_ws (snd r)) = 0"
      "max_reconnect_attempts (close_ws (snd r)) = max_reconnect_attempts s"
      using r by (simp_all add: close_ws_def emit_def)
    with c Accepted show ?thesis
      by (auto simp: final_def intro!: exI)
  next
    case (Inr s3)
    with Accepted have "connect reply conn now s = Inr (close_ws s3)"
      by (simp add: connect_def Let_def s2_def)
    with assms show ?thesis
      by (simp add: raised_def)
  qed
qed

text \<open>Claim C6. When \<open>connect\<close> fails for the \<open>k\<close>-th time in a row, where \<open>k\<close> is the
  counter \<open>reconnect_attempts\<close> after the failure (one more than before when the
  connection is refused, 1 when the failure comes after the connection was
  established) and \<open>k\<close> is below \<open>max_reconnect_attempts\<close>, then \<open>k\<close> is at least 1, the
  last thing \<open>connect\<close> does before it raises is to sleep the backoff delay, and the
  delay lies between 0 and \<open>min 300 (2 ^ k + 1)\<close>. The jitter is the fractional part of
  the clock reading, which lies in \<open>[0, 1)\<close>.\<close>

theorem backoff_bounds:
  assumes "raised (connect reply conn now s) \<noteq> None"
    and "reconnect_attempts (final (connect reply conn now s)) = k"
    and "k < max_reconnect_attempts s"
  shows "1 \<le> k \<and>
         k = (case conn of Refused \<Rightarrow> reconnect_attempts s + 1 | Accepted ms \<Rightarrow> 1) \<and>
         last (effects (final (connect reply conn now s))) = Sleep (backoff_delay k now) \<and>
         0 \<le> backoff_delay k now \<and> backoff_delay k now \<le> min 300 (2 ^ k + 1)"
proof -
  from connect_raised [OF assms(1)] obtain e s0
    where f: "final (connect reply conn now s) = snd (connect_except now e s0)"
      and m: "max_reconnect_attempts s0 = max_reconnect_attempts s"
      and a: "reconnect_attempts s0 =
        (case conn of Refused \<Rightarrow> reconnect_attempts s | Accepted ms \<Rightarrow> 0)"
    by blast
  from f assms(2) have k: "k = reconnect_attempts s0 + 1"
    by (simp add: connect_except_simps)
  with assms(3) m have "reconnect_attempts s0 + 1 < max_reconnect_attempts s0"
    by simp
  then have "last (effects (final (connect reply conn now s))) = Sleep (backoff_delay k now)"
    unfolding f k by (rule connect_except_sleep)
  moreover have "k = (case conn of Refused \<Rightarrow> reconnect_attempts s + 1 | Accepted ms \<Rightarrow> 1)"
    using k a by (simp split: connection.splits)
  ultimately show ?thesis
    using k backoff_delay_bounds [of k now] by simp
qed

theorem backoff_bounds_witness:
  "raised (connect Url_raised Refused (1 / 2) (GatewayHandler_init ''token'')) \<noteq> None \<and>
   reconnect_attempts (final (connect Url_raised Refused (1 / 2) (GatewayHandler_init ''token''))) = 1 \<and>
   1 < max_reconnect_attempts (GatewayHandler_init ''token'') \<and>
   last (effects (final (connect Url_raised Refused (1 / 2) (GatewayHandler_init ''token'')))) =
     Sleep (backoff_delay 1 (1 / 2)) \<and>
   backoff_delay 1 (1 / 2) = 5 / 2 \<and>
   backoff_delay 1 (1 / 2) \<le> min 300 (2 ^ 1 + 1)"
proof -
  have r: "raised (connect Url_raised Refused (1 / 2) (GatewayHandler_init ''token'')) \<noteq> None"
    by (simp add: connect_def connect_except_def raised_def Let_def)
  have k: "reconnect_attempts
      (final (connect Url_raised Refused (1 / 2) (GatewayHandler_init ''token''))) = 1"
    by (simp add: connect_def connect_except_def get_gateway_url_def final_def Let_def
        logger_def emit_def GatewayHandler_init_def)
  have m: "1 < max_reconnect_attempts (GatewayHandler_init ''token'')"
    by (simp add: GatewayHandler_init_def)
  have d: "backoff_delay 1 (1 / 2) = 5 / 2"
    by (simp add: backoff_delay_def frac_def)
  from backoff_bounds [OF r k m] r k m d show ?thesis
    by simp
qed

text \<open>Claim C7, as stated, fails: a handler that holds a session and has failed four
  times fails a fifth time; the counter reaches the maximum of 5, the failure
  propagates, and the session identifier and the sequence are still there.\<close>

theorem exhaustion_does_not_clear:
  "raised (connect Url_raised Refused 0 four_failures) = Some ClientError \<and>
   reconnect_attempts (final (connect Url_raised Refused 0 four_failures)) = 5 \<and>
   max_reconnect_attempts (final (connect Url_raised Refused 0 four_failures)) = 5 \<and>
   session_id (final (connect Url_raised Refused 0 four_failures)) = Some ''abc'' \<and>
   sequence (final (connect Url_raised Refused 0 four_failures)) = JInt 5"
  by (simp add: connect_def connect_except_def get_gateway_url_def final_def raised_def
      gw_defs four_failures_def GatewayHandler_init_def Let_def)

text \<open>Claim C7, amended. When reconnect attempts are exhausted (the counter reaches
  \<open>max_reconnect_attempts\<close> and the failure propagates to the caller, without a
  backoff sleep), \<open>session_id\<close> and \<open>sequence\<close> are left as they were: the
  \<^verbatim>\<open>except\<close> block clears neither, for a refused connection as for any other
  failure.\<close>

theorem exhaustion_keeps_session:
  assumes "max_reconnect_attempts s \<le> reconnect_attempts s + 1"
  shows "raised (connect reply Refused now s) = Some ClientError \<and>
         session_id (final (connect reply Refused now s)) = session_id s \<and>
         sequence (final (connect reply Refused now s)) = sequence s \<and>
         slept (effects_since s (final (connect reply Refused now s))) = [] \<and>
         session_id (snd (connect_except now e s)) = session_id s \<and>
         sequence (snd (connect_except now e s)) = sequence s"
  using assms
  by (cases reply)
    (simp_all add: connect_def connect_except_def get_gateway_url_def raised_def final_def
      effects_since_def Let_def logger_def emit_def)

theorem exhaustion_keeps_session_witness:
  "max_reconnect_attempts four_failures \<le> reconnect_attempts four_failures + 1 \<and>
   raised (connect Url_raised Refused 0 four_failures) = Some ClientError \<and>
   session_id (final (connect Url_raised Refused 0 four_failures)) = Some ''abc'' \<and>
   sequence (final (connect Url_raised Refused 0 four_failures)) = JInt 5"
proof -
  have h: "max_reconnect_attempts four_failures \<le> reconnect_attempts four_failures + 1"
    by (simp add: four_failures_def GatewayHandler_init_def)
  from exhaustion_keeps_session [OF h, of Url_raised 0] h show ?thesis
    by (simp add: four_failures_def GatewayHandler_init_def)
qed

text \<open>Claim C8, as stated, fails for a text frame that is not valid JSON: the
  exception leaves the read loop, the socket is closed, the reconnect counter goes
  to 1 with a backoff sleep of 2 seconds, and the frame that follows is never
  handled (no heartbeat is sent in answer to the request).\<close>

theorem invalid_json_ends_connection:
  "raised (connect Url_raised (Accepted [Text None, Text (Some heartbeat_request)]) 0
      (GatewayHandler_init ''token'')) = Some JSONDecodeError \<and>
   \<not> ws_open (final (connect Url_raised (Accepted [Text None, Text (Some heartbeat_request)]) 0
      (GatewayHandler_init ''token''))) \<and>
   reconnect_attempts (final (connect Url_raised
      (Accepted [Text None, Text (Some heartbeat_request)]) 0
      (GatewayHandler_init ''token''))) = 1 \<and>
   sent (effects (final (connect Url_raised
      (Accepted [Text None, Text (Some heartbeat_request)]) 0
      (GatewayHandler_init ''token'')))) = [] \<and>
   slept (effects (final (connect Url_raised
      (Accepted [Text None, Text (Some heartbeat_request)]) 0
      (GatewayHandler_init ''token'')))) = [2]"
  by (simp add: connect_def connect_except_def get_gateway_url_def backoff_delay_def
      final_def raised_def gw_defs heartbeat_request_def GatewayHandler_init_def Let_def)

text \<open>Claim C8, amended. A frame that is a JSON object whose opcode is none of 0, 1, 7,
  9, 10 and 11 is skipped without a log record or any other effect (only its
  non-null \<^verbatim>\<open>s\<close> is stored); the socket stays open and the read loop goes on with
  the next frame. A text frame that is not valid JSON is not skipped: the exception
  leaves the read loop, \<open>connect\<close> closes the socket, counts a failed attempt and
  raises to its caller.\<close>

theorem unknown_opcode_skipped:
  assumes "\<forall>n\<in>{0, 1, 7, 9, 10, 11}. \<not> py_eq (dict_get kvs ''op'') n" and "ws_open s"
  shows "handle_message (JObj kvs) s = Inr (store_sequence (dict_get kvs ''s'') s) \<and>
         effects (store_sequence (dict_get kvs ''s'') s) = effects s \<and>
         ws_open (store_sequence (dict_get kvs ''s'') s) \<and>
         read_loop (Text (Some (JObj kvs)) # ms) s =
           read_loop ms (store_sequence (dict_get kvs ''s'') s) \<and>
         read_loop (Text None # ms) s = Inl (JSONDecodeError, s) \<and>
         raised (connect reply (Accepted (Text None # ms)) now s0) = Some JSONDecodeError \<and>
         \<not> ws_open (final (connect reply (Accepted (Text None # ms)) now s0)) \<and>
         reconnect_attempts (final (connect reply (Accepted (Text None # ms)) now s0)) = 1"
proof -
  have h: "handle_message (JObj kvs) s = Inr (store_sequence (dict_get kvs ''s'') s)"
    using assms(1) by (rule handle_unknown)
  have c: "raised (connect reply (Accepted (Text None # ms)) now s0) = Some JSONDecodeError \<and>
         \<not> ws_open (final (connect reply (Accepted (Text None # ms)) now s0)) \<and>
         reconnect_attempts (final (connect reply (Accepted (Text None # ms)) now s0)) = 1"
    by (simp add: connect_def connect_except_def raised_def final_def Let_def gw_defs
        get_gateway_url_simps)
  from h c assms(2) show ?thesis
    by (simp add: store_sequence_simps)
qed

theorem unknown_opcode_skipped_witness:
  "\<not> py_eq (dict_get [(''op'', JInt 42), (''s'', JInt 8)] ''op'') 0 \<and>
   ws_open connected \<and>
   handle_message unknown_frame connected = Inr (connected\<lparr>sequence := JInt 8\<rparr>) \<and>
   read_loop [Text (Some unknown_frame), Text (Some heartbeat_request)] connected =
     read_loop [Text (Some heartbeat_request)] (connected\<lparr>sequence := JInt 8\<rparr>) \<and>
   read_loop [Text None, Text (Some heartbeat_request)] connected =
     Inl (JSONDecodeError, connected)"
proof -
  have u: "\<forall>n\<in>{0, 1, 7, 9, 10, 11}.
      \<not> py_eq (dict_get [(''op'', JInt 42), (''s'', JInt 8)] ''op'') n"
    by (simp add: dict_get_def)
  have o: "ws_open connected"
    by (simp add: connected_def ws_open_def)
  from unknown_opcode_skipped [OF u o, of "[Text (Some heartbeat_request)]"] u o
  show ?thesis
    by (simp add: unknown_frame_def store_sequence_def dict_get_def)
qed


end
